theory Spec2Isabelle
  imports Complex_Main "HOL-Library.Word"
begin

section \<open>Data model (main.go, lines 16-43)\<close>

text \<open>
  Go's \<open>int\<close> is a 64-bit two's complement integer: depths are \<open>64 word\<close>, compared
  with the signed order. Times are milliseconds on the integer line, HTTP status codes
  are integers (no arithmetic is done on them), strings are byte lists.
\<close>

type_synonym go_int = "64 word"

text \<open>The fields of \<open>net/url.URL\<close> that the crawler or the properties below look at.\<close>

record net_url =
  Scheme :: string
  Host :: string
  Path :: string
  RawQuery :: string
  Fragment :: string

record PageData =
  URL :: string
  Title :: string
  Links :: "string list"
  Depth :: go_int
  CrawledAt :: int
  ResponseTime :: int
  StatusCode :: int

record CrawlResult =
  BaseURL :: string
  MaxDepth :: go_int
  StartTime :: int
  EndTime :: int
  TotalPages :: int
  Pages :: "PageData list"

text \<open>
  \<open>visited\<close> is Go's \<open>map[string]bool\<close>. \<open>rateLimiter\<close> is the channel made by
  \<open>time.Tick\<close>: the record keeps the ticker's period in nanoseconds (\<open>time.Tick\<close>
  returns a nil channel, which never delivers, when the period is not positive); whether a
  tick is waiting in the channel is part of the running system below. The two locks are
  not fields: every locked section is one atomic step of the system.
\<close>

record Crawler =
  visited :: "string \<rightharpoonup> bool"
  baseURL :: net_url
  maxDepth :: go_int
  rateLimiter :: int
  result :: CrawlResult

datatype error = InvalidBaseURL | ErrorCreatingFile | ErrorEncodingJSON

section \<open>The collaborators outside the repository\<close>

text \<open>
  A parsed HTML document as the crawler reads it: the text of \<open>title\<close> and, for every
  \<open>a\<close> element in document order, its \<open>href\<close> attribute if it has one.
\<close>

record document =
  title :: string
  anchors :: "string option list"

text \<open>
  What \<open>http.Get\<close> followed by \<open>goquery.NewDocumentFromReader\<close> gives:
  a transport error, or a response with its status code and the parsed body
  (\<open>None\<close> when the body cannot be read).
\<close>

datatype fetch_result = GetError | Response int "document option"

text \<open>
  The library functions the crawler calls, as parameters: \<open>url.Parse\<close>,
  \<open>(*URL).Parse\<close> (resolution of a reference against a base), \<open>(*URL).String\<close>,
  \<open>strings.TrimSpace\<close>, and the network, whose answer may depend on the time of the
  request.
\<close>

record env =
  url_Parse :: "string \<Rightarrow> net_url option"
  url_ParseRef :: "net_url \<Rightarrow> string \<Rightarrow> net_url option"
  url_String :: "net_url \<Rightarrow> string"
  strings_TrimSpace :: "string \<Rightarrow> string"
  http_Get :: "int \<Rightarrow> string \<Rightarrow> fetch_result"

definition HasPrefix :: "string \<Rightarrow> string \<Rightarrow> bool" where
  "HasPrefix s p = (take (length p) s = p)"

section \<open>NewCrawler (main.go, lines 45-63)\<close>

text \<open>
  \<open>time.Duration(1000/requestsPerSecond) * time.Millisecond\<close>: the quotient is
  converted to an integer, which drops its fractional part, and the product with
  \<open>time.Millisecond\<close> (\<open>10^6\<close> nanoseconds) is a 64-bit multiplication. The float64
  quotient is taken as the exact rational one; the conversion of a quotient beyond the
  64-bit range is implementation-dependent in Go and is not covered (the theorems about
  the period bound the quotient).
\<close>

definition float_to_int :: "rat \<Rightarrow> int" where
  "float_to_int q = (if 0 \<le> q then \<lfloor>q\<rfloor> else \<lceil>q\<rceil>)"

definition wrap64 :: "int \<Rightarrow> int" where
  "wrap64 k = (k + 2 ^ 63) mod 2 ^ 64 - 2 ^ 63"

definition tick_period :: "rat \<Rightarrow> int" where
  "tick_period requestsPerSecond = wrap64 (float_to_int (1000 / requestsPerSecond) * 1000000)"

definition NewCrawler :: "env \<Rightarrow> int \<Rightarrow> string \<Rightarrow> go_int \<Rightarrow> rat \<Rightarrow> error + Crawler" where
  "NewCrawler ev clock base md requestsPerSecond =
     (case url_Parse ev base of
        None \<Rightarrow> Inl InvalidBaseURL
      | Some parsedURL \<Rightarrow>
          Inr \<lparr>visited = Map.empty,
               baseURL = parsedURL,
               maxDepth = md,
               rateLimiter = tick_period requestsPerSecond,
               result = \<lparr>BaseURL = base, MaxDepth = md, StartTime = clock,
                         EndTime = 0, TotalPages = 0, Pages = []\<rparr>\<rparr>)"

section \<open>The methods of the crawler (main.go, lines 65-85)\<close>

definition isVisited :: "Crawler \<Rightarrow> string \<Rightarrow> bool" where
  "isVisited c u = (case visited c u of Some b \<Rightarrow> b | None \<Rightarrow> False)"

definition markVisited :: "Crawler \<Rightarrow> string \<Rightarrow> Crawler" where
  "markVisited c u = c\<lparr>visited := (visited c)(u \<mapsto> True)\<rparr>"

definition isSameDomain :: "Crawler \<Rightarrow> net_url \<Rightarrow> bool" where
  "isSameDomain c pageU = (Host pageU = Host (baseURL c))"

definition addPageData :: "Crawler \<Rightarrow> PageData \<Rightarrow> Crawler" where
  "addPageData c d = c\<lparr>result := (result c)\<lparr>Pages := Pages (result c) @ [d]\<rparr>\<rparr>"

section \<open>crawl as a goroutine (main.go, lines 87-173)\<close>

text \<open>
  One call of \<open>crawl\<close> is a task: its arguments, its local variables and the place it
  has reached. A step of a task runs the code up to and including its next access to
  something shared (the visited map, the tick channel, the network, the result), so the
  steps of different tasks interleave exactly where goroutines can.

  \<^item> \<open>AtEntry\<close>: lines 90-96, the depth test and \<open>isVisited\<close>;
  \<^item> \<open>AtLimiter\<close>: line 98, the receive from the tick channel;
  \<^item> \<open>AtMark\<close>: line 100, \<open>markVisited\<close>;
  \<^item> \<open>AtGet\<close>: lines 103-110, \<open>url.Parse\<close> and the start of \<open>http.Get\<close>;
  \<^item> \<open>AwaitResp\<close>: lines 110-128, the response, its status and its body;
  \<^item> \<open>InLoop\<close>: lines 132-159, one \<open>a\<close> element per step;
  \<^item> \<open>AtStore\<close>: lines 162-172, the record and \<open>addPageData\<close>;
  \<^item> \<open>Finished\<close>: returned (\<open>wg.Done\<close> has run).
\<close>

datatype pc = AtEntry | AtLimiter | AtMark | AtGet | AwaitResp | InLoop | AtStore | Finished

record task =
  pageURL :: string
  depth :: go_int
  pc :: pc
  parsedURL :: net_url
  startTime :: int
  responseTime :: int
  statusCode :: int
  doc :: document
  todo :: "string option list"
  links :: "string list"

definition new_task :: "string \<Rightarrow> go_int \<Rightarrow> task" where
  "new_task u d =
     \<lparr>pageURL = u, depth = d, pc = AtEntry,
      parsedURL = \<lparr>Scheme = [], Host = [], Path = [], RawQuery = [], Fragment = []\<rparr>,
      startTime = 0, responseTime = 0, statusCode = 0,
      doc = \<lparr>title = [], anchors = []\<rparr>, todo = [], links = []\<rparr>"

text \<open>
  The running system: the crawler, the goroutines in spawn order (the wait group counts
  the ones that have not finished), the tick channel (capacity one), the clock, and the
  log of the requests sent with \<open>http.Get\<close>.
\<close>

record system =
  crawler :: Crawler
  tasks :: "task list"
  tick :: bool
  now :: int
  fetched :: "string list"

text \<open>
  The function given to \<open>Each\<close> (lines 132-159) on one \<open>a\<close> element: the task with
  its \<open>links\<close> extended, and the child task if one is spawned.
\<close>

definition visit_link :: "env \<Rightarrow> Crawler \<Rightarrow> task \<Rightarrow> string option \<Rightarrow> task \<times> task option" where
  "visit_link ev c t a =
     (case a of
        None \<Rightarrow> (t, None)
      | Some raw \<Rightarrow>
          (let href = strings_TrimSpace ev raw in
           if href = [] \<or> HasPrefix href ''#'' then (t, None)
           else (case url_ParseRef ev (parsedURL t) href of
                   None \<Rightarrow> (t, None)
                 | Some absoluteURL \<Rightarrow>
                     if \<not> isSameDomain c absoluteURL then (t, None)
                     else (let nextURL = url_String ev absoluteURL;
                               t' = t\<lparr>links := links t @ [nextURL]\<rparr>
                           in if \<not> isVisited c nextURL
                              then (t', Some (new_task nextURL (depth t + 1)))
                              else (t', None)))))"

definition put_task :: "nat \<Rightarrow> task \<Rightarrow> system \<Rightarrow> system" where
  "put_task i t s = s\<lparr>tasks := (tasks s)[i := t]\<rparr>"

definition task_step :: "env \<Rightarrow> nat \<Rightarrow> system \<Rightarrow> system" where
  "task_step ev i s =
     (let t = tasks s ! i; c = crawler s in
      case pc t of
        AtEntry \<Rightarrow>
          if maxDepth c <s depth t then put_task i (t\<lparr>pc := Finished\<rparr>) s
          else if isVisited c (pageURL t) then put_task i (t\<lparr>pc := Finished\<rparr>) s
          else put_task i (t\<lparr>pc := AtLimiter\<rparr>) s
      | AtLimiter \<Rightarrow>
          if tick s then put_task i (t\<lparr>pc := AtMark\<rparr>) (s\<lparr>tick := False\<rparr>) else s
      | AtMark \<Rightarrow>
          put_task i (t\<lparr>pc := AtGet\<rparr>) (s\<lparr>crawler := markVisited c (pageURL t)\<rparr>)
      | AtGet \<Rightarrow>
          (case url_Parse ev (pageURL t) of
             None \<Rightarrow> put_task i (t\<lparr>pc := Finished\<rparr>) s
           | Some u \<Rightarrow>
               put_task i (t\<lparr>parsedURL := u, startTime := now s, pc := AwaitResp\<rparr>)
                 (s\<lparr>fetched := fetched s @ [pageURL t]\<rparr>))
      | AwaitResp \<Rightarrow>
          (case http_Get ev (now s) (pageURL t) of
             GetError \<Rightarrow> put_task i (t\<lparr>pc := Finished\<rparr>) s
           | Response code body \<Rightarrow>
               (let t1 = t\<lparr>responseTime := now s - startTime t, statusCode := code\<rparr> in
                if code \<noteq> 200 then put_task i (t1\<lparr>pc := Finished\<rparr>) s
                else (case body of
                        None \<Rightarrow> put_task i (t1\<lparr>pc := Finished\<rparr>) s
                      | Some d \<Rightarrow>
                          put_task i (t1\<lparr>doc := d, todo := anchors d, links := [],
                                          pc := InLoop\<rparr>) s)))
      | InLoop \<Rightarrow>
          (case todo t of
             [] \<Rightarrow> put_task i (t\<lparr>pc := AtStore\<rparr>) s
           | a # rest \<Rightarrow>
               (case visit_link ev c (t\<lparr>todo := rest\<rparr>) a of
                  (t', None) \<Rightarrow> put_task i t' s
                | (t', Some child) \<Rightarrow> s\<lparr>tasks := (tasks s)[i := t'] @ [child]\<rparr>))
      | AtStore \<Rightarrow>
          put_task i (t\<lparr>pc := Finished\<rparr>)
            (s\<lparr>crawler := addPageData c
                  \<lparr>URL = pageURL t, Title = title (doc t), Links = links t,
                   Depth = depth t, CrawledAt = now s,
                   ResponseTime = responseTime t, StatusCode = statusCode t\<rparr>\<rparr>)
      | Finished \<Rightarrow> s)"

text \<open>
  What can happen next: the ticker fires (a tick is kept only while the channel is empty,
  and a nil channel never gets one), time passes, or the scheduler runs one step of a
  goroutine. A run is a list of such events.
\<close>

datatype event = Tick | Advance nat | Run nat

definition step :: "env \<Rightarrow> event \<Rightarrow> system \<Rightarrow> system" where
  "step ev e s =
     (case e of
        Tick \<Rightarrow> if 0 < rateLimiter (crawler s) then s\<lparr>tick := True\<rparr> else s
      | Advance d \<Rightarrow> s\<lparr>now := now s + int d\<rparr>
      | Run i \<Rightarrow> if i < length (tasks s) then task_step ev i s else s)"

definition exec :: "env \<Rightarrow> event list \<Rightarrow> system \<Rightarrow> system" where
  "exec ev es s = fold (step ev) es s"

section \<open>saveResults and Start (main.go, lines 175-210)\<close>

text \<open>
  \<open>saveResults\<close> first sets the end time and the page count, then writes the file; the
  two ways the write can fail are inputs (\<open>None\<close> is success).
\<close>

definition saveResults :: "int \<Rightarrow> error option \<Rightarrow> Crawler \<Rightarrow> Crawler \<times> error option" where
  "saveResults clock io c =
     (c\<lparr>result := (result c)\<lparr>EndTime := clock,
                              TotalPages := int (length (Pages (result c)))\<rparr>\<rparr>, io)"

definition all_done :: "system \<Rightarrow> bool" where
  "all_done s = list_all (\<lambda>t. pc t = Finished) (tasks s)"

definition start_system :: "env \<Rightarrow> Crawler \<Rightarrow> system" where
  "start_system ev c =
     \<lparr>crawler = c, tasks = [new_task (url_String ev (baseURL c)) 0],
      tick = False, now = StartTime (result c), fetched = []\<rparr>"

text \<open>
  \<open>Start\<close> spawns the seed task and waits for the wait group: under the events \<open>es\<close>
  it returns only if they bring every goroutine to its end (\<open>None\<close>: still waiting), and
  then saves the results at the time reached.
\<close>

definition Start :: "env \<Rightarrow> event list \<Rightarrow> error option \<Rightarrow> Crawler \<Rightarrow> (Crawler \<times> error option) option" where
  "Start ev es io c =
     (let s = exec ev es (start_system ev c) in
      if all_done s then Some (saveResults (now s) io (crawler s)) else None)"

text \<open>The state a run reaches from a fresh crawler under the events \<open>es\<close>.\<close>

definition run :: "env \<Rightarrow> Crawler \<Rightarrow> event list \<Rightarrow> system" where
  "run ev c es = exec ev es (start_system ev c)"

section \<open>main (main.go, lines 212-232)\<close>

text \<open>
  \<open>main\<close> reads the base URL and fixes the depth at 3 and the rate at 2 requests per
  second. When \<open>NewCrawler\<close> fails it reports the error and returns: no system exists.
\<close>

definition crawler_main :: "env \<Rightarrow> int \<Rightarrow> string \<Rightarrow> event list \<Rightarrow> error option
    \<Rightarrow> error + (Crawler \<times> error option) option" where
  "crawler_main ev clock input es io =
     (case NewCrawler ev clock input 3 2 of
        Inl e \<Rightarrow> Inl e
      | Inr c \<Rightarrow> Inr (Start ev es io c))"

text \<open>\<open>(*URL).IsAbs\<close> of \<open>net/url\<close>: a URL is absolute when it has a scheme.\<close>

definition IsAbs :: "net_url \<Rightarrow> bool" where
  "IsAbs u = (Scheme u \<noteq> [])"

section \<open>Properties of tasks and systems used in the proofs\<close>




text \<open>A task that has passed the depth test is within the bound; so is every record.\<close>

definition depth_task :: "go_int \<Rightarrow> task \<Rightarrow> bool" where
  "depth_task md t = (pc t \<noteq> AtEntry \<and> pc t \<noteq> Finished \<longrightarrow> depth t \<le>s md)"

definition depth_ok :: "system \<Rightarrow> bool" where
  "depth_ok s = (list_all (depth_task (maxDepth (crawler s))) (tasks s) \<and>
     list_all (\<lambda>p. Depth p \<le>s maxDepth (crawler s)) (Pages (result (crawler s))))"


text \<open>
  What the loop of lines 132-159 appends to \<open>links\<close> for one \<open>a\<close> element, and for a
  list of them: the string of the resolved URL, when the element has an \<open>href\<close> that is
  not empty and does not start with \<open>#\<close> after trimming, resolves against the page's
  URL, and has the host \<open>h\<close>.
\<close>

definition recorded_link :: "env \<Rightarrow> string \<Rightarrow> net_url \<Rightarrow> string option \<Rightarrow> string option" where
  "recorded_link ev h pu a =
     (case a of
        None \<Rightarrow> None
      | Some raw \<Rightarrow>
          (let href = strings_TrimSpace ev raw in
           if href = [] \<or> HasPrefix href ''#'' then None
           else (case url_ParseRef ev pu href of
                   None \<Rightarrow> None
                 | Some absoluteURL \<Rightarrow>
                     if Host absoluteURL = h then Some (url_String ev absoluteURL) else None)))"

fun in_scope_links :: "env \<Rightarrow> string \<Rightarrow> net_url \<Rightarrow> string option list \<Rightarrow> string list" where
  "in_scope_links ev h pu [] = []"
| "in_scope_links ev h pu (a # as) =
     (case recorded_link ev h pu a of
        None \<Rightarrow> in_scope_links ev h pu as
      | Some u \<Rightarrow> u # in_scope_links ev h pu as)"

text \<open>
  The links list as the specification words it (section 3 and section 4.5, step 6):
  every \<open>href\<close> that is not empty or fragment-only and that resolves, in scope or not, in
  discovery order.
\<close>

definition discovered_link :: "env \<Rightarrow> net_url \<Rightarrow> string option \<Rightarrow> string option" where
  "discovered_link ev pu a =
     (case a of
        None \<Rightarrow> None
      | Some raw \<Rightarrow>
          (let href = strings_TrimSpace ev raw in
           if href = [] \<or> HasPrefix href ''#'' then None
           else map_option (url_String ev) (url_ParseRef ev pu href)))"

fun discovered_links :: "env \<Rightarrow> net_url \<Rightarrow> string option list \<Rightarrow> string list" where
  "discovered_links ev pu [] = []"
| "discovered_links ev pu (a # as) =
     (case discovered_link ev pu a of
        None \<Rightarrow> discovered_links ev pu as
      | Some u \<Rightarrow> u # discovered_links ev pu as)"

definition loop_task :: "env \<Rightarrow> string \<Rightarrow> task \<Rightarrow> bool" where
  "loop_task ev h t =
     ((pc t = InLoop \<or> pc t = AtStore \<longrightarrow>
         links t @ in_scope_links ev h (parsedURL t) (todo t)
           = in_scope_links ev h (parsedURL t) (anchors (doc t))) \<and>
      (pc t = AtStore \<longrightarrow> todo t = []))"

definition loop_ok :: "env \<Rightarrow> string \<Rightarrow> system \<Rightarrow> bool" where
  "loop_ok ev h s = (Host (baseURL (crawler s)) = h \<and> list_all (loop_task ev h) (tasks s))"

section \<open>Measuring the work that is left\<close>

text \<open>
  A goroutine can move when it has not returned and, if it waits at the rate limiter,
  a tick is there. \<open>moves\<close> counts the events of a run that move a goroutine.
\<close>

definition enabled :: "system \<Rightarrow> nat \<Rightarrow> bool" where
  "enabled s i =
     (i < length (tasks s) \<and> pc (tasks s ! i) \<noteq> Finished \<and>
      (pc (tasks s ! i) = AtLimiter \<longrightarrow> tick s))"




text \<open>No page has more than \<open>B\<close> \<open>a\<close> elements.\<close>

definition fanout_bounded :: "env \<Rightarrow> nat \<Rightarrow> bool" where
  "fanout_bounded ev B =
     (\<forall>clock u code d. http_Get ev clock u = Response code (Some d) \<longrightarrow> length (anchors d) \<le> B)"

text \<open>
  The number of depths from \<open>d\<close> up to \<open>md\<close>; a bound on the moves of a new task with
  that many levels below the bound, all its descendants included; and the same bound
  for a task wherever it stands.
\<close>

definition levels :: "go_int \<Rightarrow> go_int \<Rightarrow> nat" where
  "levels md d = nat (sint md - sint d + 1)"

fun weight_new :: "nat \<Rightarrow> nat \<Rightarrow> nat" where
  "weight_new B 0 = 1"
| "weight_new B (Suc l) = 7 + B * (1 + weight_new B l)"

definition task_weight :: "nat \<Rightarrow> go_int \<Rightarrow> task \<Rightarrow> nat" where
  "task_weight B md t =
     (let X = 1 + weight_new B (levels md (depth t) - 1) in
      case pc t of
        AtEntry \<Rightarrow> weight_new B (levels md (depth t))
      | AtLimiter \<Rightarrow> 6 + B * X
      | AtMark \<Rightarrow> 5 + B * X
      | AtGet \<Rightarrow> 4 + B * X
      | AwaitResp \<Rightarrow> 3 + B * X
      | InLoop \<Rightarrow> 2 + length (todo t) * X
      | AtStore \<Rightarrow> 1
      | Finished \<Rightarrow> 0)"

definition potential :: "nat \<Rightarrow> system \<Rightarrow> nat" where
  "potential B s = sum_list (map (task_weight B (maxDepth (crawler s))) (tasks s))"

section \<open>A concrete instance of the collaborators\<close>

text \<open>
  To run the crawler on concrete inputs the library functions are instantiated with a
  model of \<open>net/url\<close> for plain URLs: \<open>scheme://host/path?query#fragment\<close> and relative
  references, written with lower-case schemes and without user information, percent
  escapes, opaque parts or dot segments. The functions follow the library's
  \<open>getScheme\<close>, \<open>parse\<close>, \<open>String\<close>, \<open>resolvePath\<close> and \<open>ResolveReference\<close> on such
  input. The network is a table from URL strings to answers; a URL that is not in the
  table cannot be fetched (\<open>http.Get\<close> returns an error).
\<close>

definition is_letter :: "char \<Rightarrow> bool" where
  "is_letter c = (let n = (of_char c :: nat) in (97 \<le> n \<and> n \<le> 122) \<or> (65 \<le> n \<and> n \<le> 90))"

definition is_digit :: "char \<Rightarrow> bool" where
  "is_digit c = (let n = (of_char c :: nat) in 48 \<le> n \<and> n \<le> 57)"

definition is_ctl :: "char \<Rightarrow> bool" where
  "is_ctl c = (let n = (of_char c :: nat) in n < 32 \<or> n = 127)"

definition is_space :: "char \<Rightarrow> bool" where
  "is_space c = (let n = (of_char c :: nat) in n = 32 \<or> (9 \<le> n \<and> n \<le> 13))"

fun getScheme :: "string \<Rightarrow> string \<Rightarrow> string \<Rightarrow> (string \<times> string) option" where
  "getScheme rawURL pre [] = Some ([], rawURL)"
| "getScheme rawURL pre (c # cs) =
     (if is_letter c then getScheme rawURL (pre @ [c]) cs
      else if is_digit c \<or> c = CHR ''+'' \<or> c = CHR ''-'' \<or> c = CHR ''.''
        then (if pre = [] then Some ([], rawURL) else getScheme rawURL (pre @ [c]) cs)
      else if c = CHR '':'' then (if pre = [] then None else Some (pre, cs))
      else Some ([], rawURL))"

definition Cut :: "char \<Rightarrow> string \<Rightarrow> string \<times> string" where
  "Cut sep s = (takeWhile (\<lambda>c. c \<noteq> sep) s, drop 1 (dropWhile (\<lambda>c. c \<noteq> sep) s))"

definition plain_Parse :: "string \<Rightarrow> net_url option" where
  "plain_Parse rawURL =
     (let (u, frag) = Cut CHR ''#'' rawURL in
      if list_ex is_ctl u then None
      else (case getScheme u [] u of
              None \<Rightarrow> None
            | Some (scheme, rest0) \<Rightarrow>
                (let (rest, query) = Cut CHR ''?'' rest0 in
                 if \<not> HasPrefix rest ''/'' \<and> scheme = [] \<and> CHR '':'' \<in> set (fst (Cut CHR ''/'' rest))
                 then None
                 else if HasPrefix rest ''//'' \<and> (scheme \<noteq> [] \<or> \<not> HasPrefix rest ''///'')
                 then Some \<lparr>Scheme = scheme,
                            Host = takeWhile (\<lambda>c. c \<noteq> CHR ''/'') (drop 2 rest),
                            Path = dropWhile (\<lambda>c. c \<noteq> CHR ''/'') (drop 2 rest),
                            RawQuery = query, Fragment = frag\<rparr>
                 else Some \<lparr>Scheme = scheme, Host = [], Path = rest,
                            RawQuery = query, Fragment = frag\<rparr>)))"

definition plain_String :: "net_url \<Rightarrow> string" where
  "plain_String u =
     (if Scheme u \<noteq> [] then Scheme u @ '':'' else []) @
     (if (Scheme u \<noteq> [] \<or> Host u \<noteq> []) \<and> (Host u \<noteq> [] \<or> Path u \<noteq> [])
      then ''//'' @ Host u else []) @
     (if Path u \<noteq> [] \<and> \<not> HasPrefix (Path u) ''/'' \<and> Host u \<noteq> [] then ''/'' else []) @
     Path u @
     (if RawQuery u \<noteq> [] then ''?'' @ RawQuery u else []) @
     (if Fragment u \<noteq> [] then ''#'' @ Fragment u else [])"

definition resolvePath :: "string \<Rightarrow> string \<Rightarrow> string" where
  "resolvePath base ref =
     (let full = (if ref = [] then base
                  else if \<not> HasPrefix ref ''/''
                    then rev (dropWhile (\<lambda>c. c \<noteq> CHR ''/'') (rev base)) @ ref
                  else ref)
      in if full = [] then [] else if HasPrefix full ''/'' then full else ''/'' @ full)"

definition ResolveReference :: "net_url \<Rightarrow> net_url \<Rightarrow> net_url" where
  "ResolveReference u ref =
     (if Scheme ref \<noteq> [] \<or> Host ref \<noteq> []
      then ref\<lparr>Scheme := (if Scheme ref = [] then Scheme u else Scheme ref),
               Path := resolvePath (Path ref) []\<rparr>
      else \<lparr>Scheme = Scheme u, Host = Host u,
            Path = resolvePath (Path u) (Path ref),
            RawQuery = (if Path ref = [] \<and> RawQuery ref = [] then RawQuery u else RawQuery ref),
            Fragment = (if Path ref = [] \<and> RawQuery ref = [] \<and> Fragment ref = []
                        then Fragment u else Fragment ref)\<rparr>)"

definition plain_TrimSpace :: "string \<Rightarrow> string" where
  "plain_TrimSpace s = rev (dropWhile is_space (rev (dropWhile is_space s)))"

definition plain_env :: "(string \<times> fetch_result) list \<Rightarrow> env" where
  "plain_env web =
     \<lparr>url_Parse = plain_Parse,
      url_ParseRef = (\<lambda>u href. map_option (ResolveReference u) (plain_Parse href)),
      url_String = plain_String,
      strings_TrimSpace = plain_TrimSpace,
      http_Get = (\<lambda>clock u. case map_of web u of Some r \<Rightarrow> r | None \<Rightarrow> GetError)\<rparr>"

definition page :: "string \<Rightarrow> string list \<Rightarrow> fetch_result" where
  "page ttl hrefs = Response 200 (Some \<lparr>title = ttl, anchors = map Some hrefs\<rparr>)"

section \<open>Sites and schedules\<close>

text \<open>The crawler that \<open>NewCrawler\<close> builds for the seed \<open>http://a/\<close> at time 0.\<close>

definition crawler_a :: "go_int \<Rightarrow> Crawler" where
  "crawler_a md =
     \<lparr>visited = Map.empty,
      baseURL = \<lparr>Scheme = ''http'', Host = ''a'', Path = ''/'', RawQuery = [], Fragment = []\<rparr>,
      maxDepth = md, rateLimiter = 500000000,
      result = \<lparr>BaseURL = ''http://a/'', MaxDepth = md, StartTime = 0,
                EndTime = 0, TotalPages = 0, Pages = []\<rparr>\<rparr>"

text \<open>
  The crawler that \<open>NewCrawler\<close> builds for the input \<open>example.com\<close>, which
  \<open>url.Parse\<close> reads as a relative reference: a path, no scheme, no host.
\<close>

definition crawler_rel :: Crawler where
  "crawler_rel =
     \<lparr>visited = Map.empty,
      baseURL = \<lparr>Scheme = [], Host = [], Path = ''example.com'', RawQuery = [], Fragment = []\<rparr>,
      maxDepth = 3, rateLimiter = 500000000,
      result = \<lparr>BaseURL = ''example.com'', MaxDepth = 3, StartTime = 0,
                EndTime = 0, TotalPages = 0, Pages = []\<rparr>\<rparr>"

subsection \<open>The seed task alone\<close>

text \<open>
  The ticker fires, then the seed task passes its entry, takes the tick, marks its URL,
  sends its request 7 ms later and gets the answer after 40 ms more: it stands at the
  head of its loop.
\<close>

definition events_loop_head :: "event list" where
  "events_loop_head = [Tick, Run 0, Run 0, Run 0, Advance 7, Run 0, Advance 40, Run 0]"

text \<open>One more step: it has handled the first link of its page.\<close>

definition events_in_loop :: "event list" where
  "events_in_loop = events_loop_head @ [Run 0]"

text \<open>
  Two steps: on a page with one link it is about to store its record, on a page with
  two links it has handled both.
\<close>

definition events_seed :: "event list" where
  "events_seed = events_loop_head @ [Run 0, Run 0]"

text \<open>
  On a page with two links: the seed task about to store its record, and the seed task
  run to its end with no child started.
\<close>

definition events_at_store :: "event list" where
  "events_at_store = events_seed @ [Run 0]"

definition events_shallow :: "event list" where
  "events_shallow = events_seed @ [Run 0, Run 0]"

subsection \<open>A front page that links twice to the same page\<close>

definition web_dup :: "(string \<times> fetch_result) list" where
  "web_dup = [(''http://a/'', page ''A'' [''/b'', ''/b'']), (''http://a/b'', page ''B'' [])]"

text \<open>
  The seed task runs to its end; the first child passes \<open>isVisited\<close> and waits for
  its tick.
\<close>

definition events_first_wait :: "event list" where
  "events_first_wait = events_shallow @ [Run 1]"

text \<open>
  Then the second child passes \<open>isVisited\<close> too; the ticker fires and the first child
  takes the tick, marks the URL and sends its request; half a second later the ticker
  fires again.
\<close>

definition events_second_tick :: "event list" where
  "events_second_tick =
     events_first_wait @ [Run 2, Tick, Run 1, Run 1, Run 1, Advance 500, Tick]"

text \<open>Then the second child takes that tick, and both run to their ends.\<close>

definition events_dup :: "event list" where
  "events_dup = events_second_tick @ [Run 2, Run 2, Run 2,
     Advance 30, Run 1, Run 2, Run 1, Run 2, Run 1, Run 2]"


subsection \<open>A site whose only inner page answers with status 500\<close>



subsection \<open>A front page with one link to its own host and one to another host\<close>

definition web_scope :: "(string \<times> fetch_result) list" where
  "web_scope = [(''http://a/'', page ''A'' [''http://a/b'', ''http://c/x'']),
                (''http://a/b'', page ''B'' []), (''http://c/x'', page ''X'' [])]"

subsection \<open>A front page that links to one path in three ways\<close>






subsection \<open>Two pages that link to each other\<close>


section \<open>Lemmas shared by the proofs\<close>

lemma list_all_update: "list_all Q xs \<Longrightarrow> Q t \<Longrightarrow> list_all Q (xs[i := t])"
  by (induction xs arbitrary: i) (auto split: nat.splits)

lemma exec_invariant:
  assumes "P s" and "\<And>e s. P s \<Longrightarrow> P (step ev e s)"
  shows "P (exec ev es s)"
  using assms(1) unfolding exec_def
  by (induction es arbitrary: s) (simp_all add: assms(2))

lemma visit_link_same:
  "visit_link ev c t a = (t', k) \<Longrightarrow>
     pc t' = pc t \<and> statusCode t' = statusCode t \<and> depth t' = depth t \<and>
     pageURL t' = pageURL t \<and> todo t' = todo t \<and> doc t' = doc t \<and>
     parsedURL t' = parsedURL t \<and> responseTime t' = responseTime t"
  by (auto simp: visit_link_def Let_def split: option.splits if_splits)

lemma visit_link_child:
  "visit_link ev c t a = (t', Some k) \<Longrightarrow> pc k = AtEntry \<and> depth k = depth t + 1"
  by (auto simp: visit_link_def Let_def new_task_def split: option.splits if_splits)

lemma task_step_frame:
  "now (task_step ev i s) = now s"
  "maxDepth (crawler (task_step ev i s)) = maxDepth (crawler s)"
  "baseURL (crawler (task_step ev i s)) = baseURL (crawler s)"
  "rateLimiter (crawler (task_step ev i s)) = rateLimiter (crawler s)"
  "StartTime (result (crawler (task_step ev i s))) = StartTime (result (crawler s))"
  by (auto simp: task_step_def Let_def put_task_def markVisited_def addPageData_def
        split: pc.splits option.splits fetch_result.splits list.splits prod.splits)

lemma step_frame:
  "maxDepth (crawler (step ev e s)) = maxDepth (crawler s)"
  "baseURL (crawler (step ev e s)) = baseURL (crawler s)"
  "rateLimiter (crawler (step ev e s)) = rateLimiter (crawler s)"
  "StartTime (result (crawler (step ev e s))) = StartTime (result (crawler s))"
  "now s \<le> now (step ev e s)"
  by (auto simp: step_def task_step_frame split: event.splits)

lemma exec_frame:
  "maxDepth (crawler (exec ev es s)) = maxDepth (crawler s)"
  "baseURL (crawler (exec ev es s)) = baseURL (crawler s)"
  "rateLimiter (crawler (exec ev es s)) = rateLimiter (crawler s)"
  "StartTime (result (crawler (exec ev es s))) = StartTime (result (crawler s))"
  "now s \<le> now (exec ev es s)"
  unfolding exec_def
  by (induction es arbitrary: s; simp add: step_frame; metis step_frame(5) order_trans)+

lemma NewCrawler_Inr:
  "NewCrawler ev clock base md rps = Inr c \<Longrightarrow>
     visited c = Map.empty \<and> maxDepth c = md \<and> Pages (result c) = [] \<and>
     StartTime (result c) = clock \<and> url_Parse ev base = Some (baseURL c)"
  by (auto simp: NewCrawler_def split: option.splits)

lemma Start_Some:
  "Start ev es io c = Some (c', r) \<Longrightarrow>
     all_done (run ev c es) \<and> c' = fst (saveResults (now (run ev c es)) io (crawler (run ev c es)))"
  by (auto simp: Start_def run_def Let_def split: if_splits)

subsection \<open>The concrete instance\<close>

lemma plain_Parse_a:
  "plain_Parse ''http://a/'' =
     Some \<lparr>Scheme = ''http'', Host = ''a'', Path = ''/'', RawQuery = [], Fragment = []\<rparr>"
  by code_simp

lemma tick_period_2: "tick_period 2 = 500000000"
  by (simp add: tick_period_def float_to_int_def wrap64_def)

lemma NewCrawler_a: "NewCrawler (plain_env w) 0 ''http://a/'' md 2 = Inr (crawler_a md)"
  by (simp add: NewCrawler_def plain_env_def plain_Parse_a tick_period_2 crawler_a_def)

lemma all_done_dup: "all_done (run (plain_env web_dup) (crawler_a 3) events_dup)"
  by code_simp

section \<open>The report\<close>

text \<open>
  C8. In the report that \<open>Start\<close> hands to the file, \<open>total_pages\<close> is the length of
  \<open>pages\<close>, the start time is the one read at construction, and the end time, read on a
  clock that does not run backwards, is not before it.
\<close>

theorem report_integrity:
  assumes "NewCrawler ev clock base md rps = Inr c" and "Start ev es io c = Some (c', r)"
  shows "TotalPages (result c') = int (length (Pages (result c')))
       \<and> StartTime (result c') = clock \<and> StartTime (result c') \<le> EndTime (result c')"
proof -
  let ?s = "run ev c es"
  from assms(1) have st: "StartTime (result c) = clock"
    by (simp add: NewCrawler_Inr)
  from assms(2) have c': "c' = fst (saveResults (now ?s) io (crawler ?s))"
    by (simp add: Start_Some)
  have a: "StartTime (result (crawler ?s)) = clock"
    using st by (simp add: run_def exec_frame start_system_def)
  have "now (start_system ev c) \<le> now ?s"
    unfolding run_def by (rule exec_frame)
  then have b: "clock \<le> now ?s" using st by (simp add: start_system_def)
  show ?thesis using a b by (simp add: c' saveResults_def)
qed

theorem report_integrity_witness:
  "NewCrawler (plain_env web_dup) 0 ''http://a/'' 3 2 = Inr (crawler_a 3)
   \<and> all_done (run (plain_env web_dup) (crawler_a 3) events_dup)
   \<and> TotalPages (result (fst (the (Start (plain_env web_dup) events_dup None (crawler_a 3))))) = 3
   \<and> StartTime (result (fst (the (Start (plain_env web_dup) events_dup None (crawler_a 3)))))
      \<le> EndTime (result (fst (the (Start (plain_env web_dup) events_dup None (crawler_a 3)))))"
proof -
  let ?ev = "plain_env web_dup"
  let ?s = "run ?ev (crawler_a 3) events_dup"
  let ?out = "saveResults (now ?s) None (crawler ?s)"
  have n: "NewCrawler ?ev 0 ''http://a/'' 3 2 = Inr (crawler_a 3)" by (rule NewCrawler_a)
  have st: "Start ?ev events_dup None (crawler_a 3) = Some (fst ?out, snd ?out)"
    using all_done_dup by (simp add: Start_def run_def Let_def)
  have len: "length (Pages (result (crawler ?s))) = 3" by code_simp
  from report_integrity [OF n st] len all_done_dup n show ?thesis
    by (simp add: st saveResults_def)
qed

section \<open>Status 200\<close>








section \<open>The depth bound\<close>












section \<open>The tick period\<close>







section \<open>The seed URL\<close>

lemma plain_Parse_rel:
  "plain_Parse ''example.com'' =
     Some \<lparr>Scheme = [], Host = [], Path = ''example.com'', RawQuery = [], Fragment = []\<rparr>"
  by code_simp

lemma plain_Parse_bad: "plain_Parse '':foo'' = None"
  by code_simp

lemma NewCrawler_rel: "NewCrawler (plain_env w) 0 ''example.com'' 3 2 = Inr crawler_rel"
  by (simp add: NewCrawler_def plain_env_def plain_Parse_rel tick_period_2 crawler_rel_def)

lemma fetched_rel:
  "fetched (run (plain_env []) crawler_rel [Tick, Run 0, Run 0, Run 0, Run 0]) = [''example.com'']"
  by code_simp

text \<open>
  C9 as stated fails: \<open>example.com\<close> is not an absolute URL, and yet a crawler is
  built for it and its seed task goes as far as calling \<open>http.Get\<close>.
\<close>

theorem relative_seed_accepted:
  "NewCrawler (plain_env []) 0 ''example.com'' 3 2 = Inr crawler_rel
   \<and> \<not> IsAbs (baseURL crawler_rel)
   \<and> fetched (run (plain_env []) crawler_rel [Tick, Run 0, Run 0, Run 0, Run 0])
       = [''example.com'']"
  using NewCrawler_rel [of "[]"] fetched_rel by (simp add: IsAbs_def crawler_rel_def)

text \<open>
  C9, amended. The only validation is \<open>url.Parse\<close>. An input it rejects makes
  \<open>NewCrawler\<close> fail with the invalid-base-URL error, and \<open>main\<close> returns that error
  without any system of tasks. An input it accepts, absolute or not, gives a crawler for
  the parsed URL, and \<open>Start\<close> begins with one seed task for that URL's string at depth 0.
\<close>

theorem seed_validation:
  "(url_Parse ev input = None \<longrightarrow>
      NewCrawler ev clock input md rps = Inl InvalidBaseURL \<and>
      crawler_main ev clock input es io = Inl InvalidBaseURL)
   \<and> (url_Parse ev input = Some u \<longrightarrow>
      (\<exists>c. NewCrawler ev clock input md rps = Inr c \<and> baseURL c = u \<and>
           tasks (start_system ev c) = [new_task (url_String ev u) 0]))"
  by (simp add: NewCrawler_def crawler_main_def start_system_def)

theorem seed_validation_witness:
  "url_Parse (plain_env []) '':foo'' = None
   \<and> NewCrawler (plain_env []) 0 '':foo'' 3 2 = Inl InvalidBaseURL
   \<and> crawler_main (plain_env []) 0 '':foo'' [Tick, Run 0] None = Inl InvalidBaseURL
   \<and> url_Parse (plain_env []) ''example.com''
       = Some \<lparr>Scheme = [], Host = [], Path = ''example.com'', RawQuery = [], Fragment = []\<rparr>
   \<and> NewCrawler (plain_env []) 0 ''example.com'' 3 2 = Inr crawler_rel"
proof -
  have n: "url_Parse (plain_env []) '':foo'' = None"
    by (simp add: plain_env_def plain_Parse_bad)
  have r: "url_Parse (plain_env []) ''example.com''
       = Some \<lparr>Scheme = [], Host = [], Path = ''example.com'', RawQuery = [], Fragment = []\<rparr>"
    by (simp add: plain_env_def plain_Parse_rel)
  from seed_validation [of "plain_env []" "'':foo''" 0 3 2 "[Tick, Run 0]" None] n r
    NewCrawler_rel [of "[]"]
  show ?thesis by simp
qed

section \<open>The links of a record\<close>

lemma visit_link_links:
  "visit_link ev c t a = (t', k) \<Longrightarrow>
     links t' = links t @ (case recorded_link ev (Host (baseURL c)) (parsedURL t) a of
                             None \<Rightarrow> [] | Some u \<Rightarrow> [u])"
  by (auto simp: visit_link_def recorded_link_def isSameDomain_def Let_def
        split: option.splits if_splits)

lemma visit_link_out_of_scope:
  assumes "url_ParseRef ev (parsedURL t) (strings_TrimSpace ev raw) = Some absoluteURL"
    and "Host absoluteURL \<noteq> Host (baseURL c)"
  shows "visit_link ev c t (Some raw) = (t, None)"
  using assms by (simp add: visit_link_def isSameDomain_def Let_def)

lemma loop_ok_task_step:
  assumes "loop_ok ev h s" "i < length (tasks s)"
  shows "loop_ok ev h (task_step ev i s)"
proof -
  let ?t = "tasks s ! i"
  have h: "Host (baseURL (crawler s)) = h" using assms by (simp add: loop_ok_def)
  have t: "loop_task ev h ?t" using assms by (simp add: loop_ok_def list_all_length)
  have fr: "Host (baseURL (crawler (task_step ev i s))) = h"
    using h by (simp add: task_step_frame)
  have "list_all (loop_task ev h) (tasks (task_step ev i s))"
  proof (cases "pc ?t")
    case InLoop
    show ?thesis
    proof (cases "todo ?t")
      case Nil
      with InLoop assms t show ?thesis
        by (simp add: task_step_def Let_def put_task_def loop_ok_def list_all_update loop_task_def)
    next
      case (Cons a rest)
      obtain t' k where v: "visit_link ev (crawler s) (?t\<lparr>todo := rest\<rparr>) a = (t', k)"
        by fastforce
      from visit_link_same [OF v] visit_link_links [OF v] t InLoop Cons h
      have t': "loop_task ev h t'"
        by (auto simp: loop_task_def split: option.splits)
      show ?thesis
      proof (cases k)
        case None
        with InLoop Cons v assms t' show ?thesis
          by (simp add: task_step_def Let_def put_task_def loop_ok_def list_all_update)
      next
        case (Some child)
        with visit_link_child v have "loop_task ev h child"
          by (fastforce simp: loop_task_def)
        with Some InLoop Cons v assms t' show ?thesis
          by (simp add: task_step_def Let_def put_task_def loop_ok_def list_all_update)
      qed
    qed
  qed (use assms t in \<open>auto simp: task_step_def Let_def put_task_def loop_ok_def
         list_all_update loop_task_def split: option.splits fetch_result.splits\<close>)
  with fr show ?thesis by (simp add: loop_ok_def)
qed

lemma loop_ok_step: "loop_ok ev h s \<Longrightarrow> loop_ok ev h (step ev e s)"
  by (cases e) (simp_all add: step_def loop_ok_task_step, simp_all add: loop_ok_def)

lemma loop_ok_run: "loop_ok ev (Host (baseURL c)) (run ev c es)"
  unfolding run_def
proof (rule exec_invariant)
  show "loop_ok ev (Host (baseURL c)) (start_system ev c)"
    by (simp add: loop_ok_def start_system_def loop_task_def new_task_def)
qed (rule loop_ok_step)

lemma store_step:
  assumes "i < length (tasks s)" "pc (tasks s ! i) = AtStore"
  shows "\<exists>p. Pages (result (crawler (task_step ev i s))) = Pages (result (crawler s)) @ [p]
           \<and> URL p = pageURL (tasks s ! i) \<and> Links p = links (tasks s ! i)"
  using assms by (simp add: task_step_def Let_def put_task_def addPageData_def)

lemma out_of_scope_step:
  assumes "pc (tasks s ! j) = InLoop" "todo (tasks s ! j) = Some raw # rest"
    and "url_ParseRef ev (parsedURL (tasks s ! j)) (strings_TrimSpace ev raw) = Some absoluteURL"
    and "Host absoluteURL \<noteq> Host (baseURL (crawler s))"
  shows "task_step ev j s = put_task j ((tasks s ! j)\<lparr>todo := rest\<rparr>) s"
proof -
  have "visit_link ev (crawler s) ((tasks s ! j)\<lparr>todo := rest\<rparr>) (Some raw)
          = ((tasks s ! j)\<lparr>todo := rest\<rparr>, None)"
    using assms(3,4) by (intro visit_link_out_of_scope) simp_all
  with assms(1,2) show ?thesis by (simp add: task_step_def)
qed

text \<open>
  C2 as stated fails: the front page links to \<open>http://a/b\<close> and to \<open>http://c/x\<close>; both
  are discovered, and the record of the page lists only the first.
\<close>

theorem out_of_scope_link_dropped:
  "map URL (Pages (result (crawler (run (plain_env web_scope) (crawler_a 3) events_shallow))))
     = [''http://a/'']
   \<and> map Links (Pages (result (crawler (run (plain_env web_scope) (crawler_a 3) events_shallow))))
     = [[''http://a/b'']]
   \<and> discovered_links (plain_env web_scope) (baseURL (crawler_a 3))
        [Some ''http://a/b'', Some ''http://c/x''] = [''http://a/b'', ''http://c/x'']"
  by code_simp

text \<open>
  C2, amended. The record that a task stores lists, in document order, exactly the
  links of its document that are in scope (an \<open>href\<close> that is not empty and not a
  fragment after trimming, resolves against the page's URL, and has the seed's host).
  A link that resolves to another host is neither recorded nor crawled: its loop step
  changes nothing but the position in the loop.
\<close>

theorem links_in_scope_only:
  assumes "i < length (tasks (run ev c es))"
    and "pc (tasks (run ev c es) ! i) = AtStore"
    and "pc (tasks (run ev c es') ! j) = InLoop"
    and "todo (tasks (run ev c es') ! j) = Some raw # rest"
    and "url_ParseRef ev (parsedURL (tasks (run ev c es') ! j)) (strings_TrimSpace ev raw)
           = Some absoluteURL"
    and "Host absoluteURL \<noteq> Host (baseURL c)"
  shows "(\<exists>p. Pages (result (crawler (task_step ev i (run ev c es))))
               = Pages (result (crawler (run ev c es))) @ [p]
            \<and> URL p = pageURL (tasks (run ev c es) ! i)
            \<and> Links p = in_scope_links ev (Host (baseURL c))
                          (parsedURL (tasks (run ev c es) ! i))
                          (anchors (doc (tasks (run ev c es) ! i))))
       \<and> task_step ev j (run ev c es')
           = put_task j ((tasks (run ev c es') ! j)\<lparr>todo := rest\<rparr>) (run ev c es')"
proof -
  have "loop_task ev (Host (baseURL c)) (tasks (run ev c es) ! i)"
    using loop_ok_run [of ev c es] assms(1) by (simp add: loop_ok_def list_all_length)
  with assms(2)
  have l: "links (tasks (run ev c es) ! i)
         = in_scope_links ev (Host (baseURL c)) (parsedURL (tasks (run ev c es) ! i))
             (anchors (doc (tasks (run ev c es) ! i)))"
    by (auto simp: loop_task_def)
  have b: "Host (baseURL (crawler (run ev c es'))) = Host (baseURL c)"
    by (simp add: run_def exec_frame start_system_def)
  from store_step [OF assms(1,2), of ev] l
    out_of_scope_step [OF assms(3,4,5), of ] assms(6) b
  show ?thesis by auto
qed

lemma run_scope_facts:
  "length (tasks (run (plain_env web_scope) (crawler_a 3) events_at_store)) = 2"
  "pc (tasks (run (plain_env web_scope) (crawler_a 3) events_at_store) ! 0) = AtStore"
  "pc (tasks (run (plain_env web_scope) (crawler_a 3) events_in_loop) ! 0) = InLoop"
  "todo (tasks (run (plain_env web_scope) (crawler_a 3) events_in_loop) ! 0)
     = Some ''http://c/x'' # []"
  "url_ParseRef (plain_env web_scope)
     (parsedURL (tasks (run (plain_env web_scope) (crawler_a 3) events_in_loop) ! 0))
     (strings_TrimSpace (plain_env web_scope) ''http://c/x'')
     = Some \<lparr>Scheme = ''http'', Host = ''c'', Path = ''/x'', RawQuery = [], Fragment = []\<rparr>"
  "in_scope_links (plain_env web_scope) (Host (baseURL (crawler_a 3)))
     (parsedURL (tasks (run (plain_env web_scope) (crawler_a 3) events_at_store) ! 0))
     (anchors (doc (tasks (run (plain_env web_scope) (crawler_a 3) events_at_store) ! 0)))
     = [''http://a/b'']"
  "map pageURL (tasks (run (plain_env web_scope) (crawler_a 3) events_in_loop)) =
     [''http://a/'', ''http://a/b'']"
  by code_simp+

theorem links_in_scope_only_witness:
  "pc (tasks (run (plain_env web_scope) (crawler_a 3) events_at_store) ! 0) = AtStore
   \<and> pc (tasks (run (plain_env web_scope) (crawler_a 3) events_in_loop) ! 0) = InLoop
   \<and> todo (tasks (run (plain_env web_scope) (crawler_a 3) events_in_loop) ! 0)
       = Some ''http://c/x'' # []
   \<and> map Links (Pages (result (crawler
         (task_step (plain_env web_scope) 0 (run (plain_env web_scope) (crawler_a 3) events_at_store)))))
       = [[''http://a/b'']]
   \<and> task_step (plain_env web_scope) 0 (run (plain_env web_scope) (crawler_a 3) events_in_loop)
       = put_task 0 ((tasks (run (plain_env web_scope) (crawler_a 3) events_in_loop) ! 0)\<lparr>todo := []\<rparr>)
           (run (plain_env web_scope) (crawler_a 3) events_in_loop)"
proof -
  have i: "0 < length (tasks (run (plain_env web_scope) (crawler_a 3) events_at_store))"
    by (simp add: run_scope_facts)
  have h: "Host \<lparr>Scheme = ''http'', Host = ''c'', Path = ''/x'', RawQuery = [], Fragment = []\<rparr>
             \<noteq> Host (baseURL (crawler_a 3))"
    by (simp add: crawler_a_def)
  have p: "map Links (Pages (result (crawler
         (task_step (plain_env web_scope) 0 (run (plain_env web_scope) (crawler_a 3) events_at_store)))))
       = [[''http://a/b'']]"
    by code_simp
  from links_in_scope_only [OF i run_scope_facts(2) run_scope_facts(3) run_scope_facts(4)
        run_scope_facts(5) h] run_scope_facts(2,3,4) p
  show ?thesis by blast
qed

section \<open>Deduplication\<close>









section \<open>The race between the visited check and the mark\<close>

text \<open>
  C1 on the code. The front page links twice to \<open>http://a/b\<close>. Both children pass
  \<open>isVisited\<close> before either has had its tick and marked the URL, so both fetch the
  page and both store a record.
\<close>

theorem duplicate_fetch:
  "fetched (run (plain_env web_dup) (crawler_a 3) events_dup)
     = [''http://a/'', ''http://a/b'', ''http://a/b'']
   \<and> map URL (Pages (result (crawler (run (plain_env web_dup) (crawler_a 3) events_dup))))
     = [''http://a/'', ''http://a/b'', ''http://a/b'']
   \<and> all_done (run (plain_env web_dup) (crawler_a 3) events_dup)
   \<and> \<not> distinct (fetched (run (plain_env web_dup) (crawler_a 3) events_dup))"
  by code_simp

text \<open>
  C3 on the code. On the same run, the first child waits for its tick with its URL
  still unmarked (the mark comes after the wait), and the second child later takes a
  tick for a URL that is by then marked.
\<close>

theorem tick_spent_on_visited:
  "pc (tasks (run (plain_env web_dup) (crawler_a 3) events_first_wait) ! 1) = AtLimiter
   \<and> pageURL (tasks (run (plain_env web_dup) (crawler_a 3) events_first_wait) ! 1) = ''http://a/b''
   \<and> \<not> isVisited (crawler (run (plain_env web_dup) (crawler_a 3) events_first_wait)) ''http://a/b''
   \<and> pc (tasks (run (plain_env web_dup) (crawler_a 3) events_second_tick) ! 2) = AtLimiter
   \<and> pageURL (tasks (run (plain_env web_dup) (crawler_a 3) events_second_tick) ! 2) = ''http://a/b''
   \<and> isVisited (crawler (run (plain_env web_dup) (crawler_a 3) events_second_tick)) ''http://a/b''
   \<and> tick (run (plain_env web_dup) (crawler_a 3) events_second_tick)
   \<and> \<not> tick (task_step (plain_env web_dup) 2 (run (plain_env web_dup) (crawler_a 3) events_second_tick))
   \<and> pc (tasks (task_step (plain_env web_dup) 2
                 (run (plain_env web_dup) (crawler_a 3) events_second_tick)) ! 2) = AtMark"
  by code_simp

section \<open>Termination\<close>

lemma sint_succ:
  fixes d md :: go_int
  assumes "d \<le>s md" "sint md < 2 ^ 63 - 1"
  shows "sint (d + 1) = sint d + 1"
proof -
  have lo: "- (2 ^ 63) \<le> sint d" using sint_ge [of d] by simp
  have hi: "sint d + 1 < 2 ^ 63" using assms by (simp add: word_sle_eq)
  have "sint (d + 1) = signed_take_bit 63 (sint d + 1)"
    by (simp add: sint_word_ariths)
  also have "\<dots> = sint d + 1"
    using lo hi by (intro signed_take_bit_int_eq_self) simp_all
  finally show ?thesis .
qed

lemma levels_pos: "d \<le>s md \<Longrightarrow> 0 < levels md d"
  by (simp add: levels_def word_sle_eq)

lemma levels_zero: "md <s d \<Longrightarrow> levels md d = 0"
  by (simp add: levels_def word_sless_alt)

lemma levels_succ:
  assumes "d \<le>s md" "sint md < 2 ^ 63 - 1"
  shows "levels md (d + 1) = levels md d - 1"
  using sint_succ [OF assms] assms(1) by (simp add: levels_def word_sle_eq)

lemma weight_new_pos: "0 < weight_new B l"
  by (cases l) simp_all

lemma weight_new_unfold: "0 < l \<Longrightarrow> weight_new B l = 7 + B * (1 + weight_new B (l - 1))"
  by (cases l) simp_all

lemma sum_list_map_update:
  "i < length xs \<Longrightarrow> sum_list (map f (xs[i := y])) + f (xs ! i) = sum_list (map f xs) + (f y :: nat)"
  by (induction xs arbitrary: i) (auto split: nat.splits)

lemma sum_list_update_less:
  assumes "i < length xs" "sum_list (map f kids) + f y < (f (xs ! i) :: nat)"
  shows "sum_list (map f (xs[i := y] @ kids)) < sum_list (map f xs)"
  using sum_list_map_update [OF assms(1), of f y] assms(2) by simp

lemma disabled_step: "\<not> enabled s i \<Longrightarrow> step ev (Run i) s = s"
  by (auto simp: enabled_def step_def task_step_def)

lemma enabled_step_weight:
  assumes ok: "depth_ok s" and fb: "fanout_bounded ev B"
    and mx: "sint (maxDepth (crawler s)) < 2 ^ 63 - 1"
    and en: "enabled s i"
  shows "\<exists>t' kids. tasks (task_step ev i s) = (tasks s)[i := t'] @ kids \<and>
           sum_list (map (task_weight B (maxDepth (crawler s))) kids)
             + task_weight B (maxDepth (crawler s)) t'
           < task_weight B (maxDepth (crawler s)) (tasks s ! i)"
proof -
  let ?t = "tasks s ! i"
  let ?md = "maxDepth (crawler s)"
  let ?w = "task_weight B ?md"
  from en have i: "i < length (tasks s)" by (simp add: enabled_def)
  have dt: "depth_task ?md ?t" using ok i by (simp add: depth_ok_def list_all_length)
  show ?thesis
  proof (cases "pc ?t")
    case AtEntry
    show ?thesis
    proof (cases "?md <s depth ?t \<or> isVisited (crawler s) (pageURL ?t)")
      case True
      with AtEntry have "tasks (task_step ev i s) = (tasks s)[i := ?t\<lparr>pc := Finished\<rparr>] @ []"
        by (auto simp: task_step_def put_task_def Let_def)
      moreover have "sum_list (map ?w []) + ?w (?t\<lparr>pc := Finished\<rparr>) < ?w ?t"
        using AtEntry by (simp add: task_weight_def weight_new_pos)
      ultimately show ?thesis by blast
    next
      case False
      then have le: "depth ?t \<le>s ?md" by (simp add: word_sle_eq word_sless_alt)
      from False AtEntry
      have "tasks (task_step ev i s) = (tasks s)[i := ?t\<lparr>pc := AtLimiter\<rparr>] @ []"
        by (auto simp: task_step_def put_task_def Let_def)
      moreover have "sum_list (map ?w []) + ?w (?t\<lparr>pc := AtLimiter\<rparr>) < ?w ?t"
        using AtEntry weight_new_unfold [OF levels_pos [OF le], of B]
        by (simp add: task_weight_def)
      ultimately show ?thesis by blast
    qed
  next
    case AtLimiter
    with en have "tasks (task_step ev i s) = (tasks s)[i := ?t\<lparr>pc := AtMark\<rparr>] @ []"
      by (auto simp: task_step_def put_task_def Let_def enabled_def)
    moreover have "sum_list (map ?w []) + ?w (?t\<lparr>pc := AtMark\<rparr>) < ?w ?t"
      using AtLimiter by (simp add: task_weight_def)
    ultimately show ?thesis by blast
  next
    case AtMark
    then have "tasks (task_step ev i s) = (tasks s)[i := ?t\<lparr>pc := AtGet\<rparr>] @ []"
      by (auto simp: task_step_def put_task_def Let_def)
    moreover have "sum_list (map ?w []) + ?w (?t\<lparr>pc := AtGet\<rparr>) < ?w ?t"
      using AtMark by (simp add: task_weight_def)
    ultimately show ?thesis by blast
  next
    case AtGet
    show ?thesis
    proof (cases "url_Parse ev (pageURL ?t)")
      case None
      with AtGet have "tasks (task_step ev i s) = (tasks s)[i := ?t\<lparr>pc := Finished\<rparr>] @ []"
        by (auto simp: task_step_def put_task_def Let_def)
      moreover have "sum_list (map ?w []) + ?w (?t\<lparr>pc := Finished\<rparr>) < ?w ?t"
        using AtGet by (simp add: task_weight_def)
      ultimately show ?thesis by blast
    next
      case (Some u)
      let ?t' = "?t\<lparr>parsedURL := u, startTime := now s, pc := AwaitResp\<rparr>"
      from Some AtGet have "tasks (task_step ev i s) = (tasks s)[i := ?t'] @ []"
        by (auto simp: task_step_def put_task_def Let_def)
      moreover have "sum_list (map ?w []) + ?w ?t' < ?w ?t"
        using AtGet by (simp add: task_weight_def)
      ultimately show ?thesis by blast
    qed
  next
    case AwaitResp
    let ?r = "http_Get ev (now s) (pageURL ?t)"
    show ?thesis
    proof (cases "\<exists>d. ?r = Response 200 (Some d)")
      case True
      then obtain d where r: "?r = Response 200 (Some d)" by blast
      with fb have len: "length (anchors d) \<le> B" by (auto simp: fanout_bounded_def)
      let ?t' = "?t\<lparr>responseTime := now s - startTime ?t, statusCode := 200, doc := d,
                   todo := anchors d, links := [], pc := InLoop\<rparr>"
      from r AwaitResp have "tasks (task_step ev i s) = (tasks s)[i := ?t'] @ []"
        by (auto simp: task_step_def put_task_def Let_def)
      moreover have "sum_list (map ?w []) + ?w ?t' < ?w ?t"
      proof -
        let ?X = "1 + weight_new B (levels ?md (depth ?t) - 1)"
        have wt': "?w ?t' = 2 + length (anchors d) * ?X"
          by (simp add: task_weight_def)
        have wt: "?w ?t = 3 + B * ?X"
          using AwaitResp by (simp add: task_weight_def)
        have "length (anchors d) * ?X \<le> B * ?X"
          using len by (rule mult_le_mono1)
        then show ?thesis
          unfolding wt wt' by simp
      qed
      ultimately show ?thesis by blast
    next
      case False
      have "\<exists>t'. tasks (task_step ev i s) = (tasks s)[i := t'] @ [] \<and> pc t' = Finished"
      proof (cases ?r)
        case GetError
        with AwaitResp
        have "tasks (task_step ev i s) = (tasks s)[i := ?t\<lparr>pc := Finished\<rparr>] @ []"
          by (simp add: task_step_def put_task_def Let_def)
        then show ?thesis by force
      next
        case (Response code body)
        let ?t1 = "?t\<lparr>responseTime := now s - startTime ?t, statusCode := code,
                     pc := Finished\<rparr>"
        from False Response have "code \<noteq> 200 \<or> body = None" by (cases body) auto
        with Response AwaitResp
        have "tasks (task_step ev i s) = (tasks s)[i := ?t1] @ []"
          by (auto simp: task_step_def put_task_def Let_def)
        then show ?thesis by force
      qed
      then obtain t' where
        "tasks (task_step ev i s) = (tasks s)[i := t'] @ []" and "pc t' = Finished"
        by blast
      moreover from this have "sum_list (map ?w []) + ?w t' < ?w ?t"
        using AwaitResp by (simp add: task_weight_def)
      ultimately show ?thesis by blast
    qed
  next
    case InLoop
    with dt have le: "depth ?t \<le>s ?md" by (simp add: depth_task_def)
    show ?thesis
    proof (cases "todo ?t")
      case Nil
      with InLoop have "tasks (task_step ev i s) = (tasks s)[i := ?t\<lparr>pc := AtStore\<rparr>] @ []"
        by (auto simp: task_step_def put_task_def Let_def)
      moreover have "sum_list (map ?w []) + ?w (?t\<lparr>pc := AtStore\<rparr>) < ?w ?t"
        using InLoop by (simp add: task_weight_def)
      ultimately show ?thesis by blast
    next
      case (Cons a rest)
      obtain t' k where v: "visit_link ev (crawler s) (?t\<lparr>todo := rest\<rparr>) a = (t', k)"
        by fastforce
      note same = visit_link_same [OF v]
      have wt': "?w t' = 2 + length rest * (1 + weight_new B (levels ?md (depth ?t) - 1))"
        using same InLoop by (simp add: task_weight_def)
      have wt: "?w ?t = 2 + Suc (length rest) * (1 + weight_new B (levels ?md (depth ?t) - 1))"
        using InLoop Cons by (simp add: task_weight_def)
      show ?thesis
      proof (cases k)
        case None
        with v InLoop Cons have "tasks (task_step ev i s) = (tasks s)[i := t'] @ []"
          by (simp add: task_step_def put_task_def Let_def)
        moreover have "sum_list (map ?w []) + ?w t' < ?w ?t"
          by (simp add: wt wt')
        ultimately show ?thesis by blast
      next
        case (Some child)
        with visit_link_child v have c: "pc child = AtEntry" "depth child = depth ?t + 1"
          by fastforce+
        have "?w child = weight_new B (levels ?md (depth ?t) - 1)"
          using c levels_succ [OF le mx] by (simp add: task_weight_def)
        then have "sum_list (map ?w [child]) + ?w t' < ?w ?t"
          by (simp add: wt wt')
        moreover from Some v InLoop Cons
        have "tasks (task_step ev i s) = (tasks s)[i := t'] @ [child]"
          by (simp add: task_step_def put_task_def Let_def)
        ultimately show ?thesis by blast
      qed
    qed
  next
    case AtStore
    then have "tasks (task_step ev i s) = (tasks s)[i := ?t\<lparr>pc := Finished\<rparr>] @ []"
      by (auto simp: task_step_def put_task_def Let_def)
    moreover have "sum_list (map ?w []) + ?w (?t\<lparr>pc := Finished\<rparr>) < ?w ?t"
      using AtStore by (simp add: task_weight_def)
    ultimately show ?thesis by blast
  next
    case Finished
    with en show ?thesis by (simp add: enabled_def)
  qed
qed

lemma enabled_step_less:
  assumes "depth_ok s" "fanout_bounded ev B" "sint (maxDepth (crawler s)) < 2 ^ 63 - 1"
    and "enabled s i"
  shows "potential B (step ev (Run i) s) < potential B s"
proof -
  from assms(4) have i: "i < length (tasks s)" by (simp add: enabled_def)
  from enabled_step_weight [OF assms] obtain t' kids where
    "tasks (task_step ev i s) = (tasks s)[i := t'] @ kids"
    "sum_list (map (task_weight B (maxDepth (crawler s))) kids)
       + task_weight B (maxDepth (crawler s)) t'
     < task_weight B (maxDepth (crawler s)) (tasks s ! i)"
    by blast
  with i show ?thesis
    by (simp only: potential_def step_def event.case if_True task_step_frame
          sum_list_update_less)
qed

lemma potential_step_le:
  assumes "depth_ok s" "fanout_bounded ev B" "sint (maxDepth (crawler s)) < 2 ^ 63 - 1"
  shows "potential B (step ev e s) \<le> potential B s"
proof (cases e)
  case (Run i)
  show ?thesis
  proof (cases "enabled s i")
    case True
    from enabled_step_less [OF assms this] Run show ?thesis by simp
  next
    case False
    with Run show ?thesis by (simp add: disabled_step)
  qed
qed (simp_all add: step_def potential_def)























end
